theory Spec2Isabelle
  imports Complex_Main
begin

section \<open>The energy game: data model\<close>

text \<open>
  The development embeds the \<open>Game\<close> class of \<open>gamepi.py\<close> (and, further down, the one
  of \<open>moonshot.py\<close>). The hardware helpers at the top of the modules are the boundary of
  the model: every call of \<open>set_led\<close>, \<open>set_button_led\<close>, \<open>set_windmill\<close>,
  \<open>update_score_display\<close> and \<open>update_soc_display\<close> is recorded, in order, in the field
  \<open>trace\<close> of the state; every \<open>read_sensor\<close>, \<open>read_button\<close>, \<open>time.time()\<close> and
  \<open>random.randint(0, 1)\<close> is an input supplied by the environment. \<open>time.sleep\<close> only
  delays the thread and leaves no mark in the model, the clock readings being inputs.
  Clock readings are Python floats; they are modelled as rationals, so the rounding of
  the float subtraction \<open>now - last\<close> is not part of the model.
\<close>

type_synonym time = rat

definition NUM_SENSORS :: nat where
  "NUM_SENSORS = 4"

definition SOC_LEVELS :: int where
  "SOC_LEVELS = 10"

definition MAX_ACTIONS :: int where
  "MAX_ACTIONS = 10"

definition SOC_INCREMENT :: "int list" where
  "SOC_INCREMENT = [2, 3, 4, 2]"

datatype error = IndexError

datatype effect =
    SetLed int string bool
  | SetButtonLed string bool
  | SetWindmill bool
  | UpdateScoreDisplay int
  | UpdateSocDisplay int

record game =
  score :: int
  actions :: int
  soc :: int
  last_sensor :: "int option"
  last_action_ts :: "time list"
  led_values :: "int list"
  trace :: "effect list"

text \<open>Python subscripting: a negative index counts from the end, anything outside raises.\<close>

definition py_pos :: "'a list \<Rightarrow> int \<Rightarrow> nat option" where
  "py_pos xs i =
     (if 0 \<le> i \<and> i < int (length xs) then Some (nat i)
      else if i < 0 \<and> - int (length xs) \<le> i then Some (nat (int (length xs) + i))
      else None)"

definition py_get :: "'a list \<Rightarrow> int \<Rightarrow> error + 'a" where
  "py_get xs i = (case py_pos xs i of None \<Rightarrow> Inl IndexError | Some k \<Rightarrow> Inr (xs ! k))"

definition py_set :: "'a list \<Rightarrow> int \<Rightarrow> 'a \<Rightarrow> error + 'a list" where
  "py_set xs i v = (case py_pos xs i of None \<Rightarrow> Inl IndexError | Some k \<Rightarrow> Inr (xs[k := v]))"

definition emit :: "effect list \<Rightarrow> game \<Rightarrow> game" where
  "emit os g = g\<lparr>trace := trace g @ os\<rparr>"

section \<open>Helpers of the class\<close>

text \<open>
  \<open>_randomise_leds\<close>: the argument \<open>d\<close> gives the four results of \<open>random.randint(0, 1)\<close>,
  \<open>d k\<close> telling whether the \<open>k\<close>-th call returned 1. \<open>LED_COLOR\<close> maps 0 to red and 1 to
  green.
\<close>

definition LED_COLOR :: "int \<Rightarrow> string" where
  "LED_COLOR v = (if v = 0 then ''red'' else ''green'')"

definition randomise_leds :: "(nat \<Rightarrow> bool) \<Rightarrow> game \<Rightarrow> game" where
  "randomise_leds d g =
     (let vals = map (\<lambda>k. if d k then 1 else 0) [0 ..< NUM_SENSORS]
      in emit (map (\<lambda>(idx, val). SetLed (int idx) (LED_COLOR val) True) (enumerate 0 vals))
           (g\<lparr>led_values := vals\<rparr>))"

definition spin_windmill_briefly :: "game \<Rightarrow> game" where
  "spin_windmill_briefly g = emit [SetWindmill True, SetWindmill False] g"

text \<open>
  \<open>_get_active_sensor\<close>: the first index of \<open>range(NUM_SENSORS)\<close> whose sensor reads
  active; \<open>rd idx\<close> is what \<open>read_sensor(idx)\<close> returns at this moment.
\<close>

definition get_active_sensor :: "(int \<Rightarrow> bool) \<Rightarrow> int option" where
  "get_active_sensor rd = List.find rd [0, 1, 2, 3]"

text \<open>
  The loop \<open>while read_button("charge") or read_button("discharge"): time.sleep(0.01)\<close>.
  The list holds what the two buttons read at each successive test of the condition; the
  result says whether the loop was left. On a list without a released poll the thread is
  still inside the loop when the input ends.
\<close>

fun wait_release :: "(bool \<times> bool) list \<Rightarrow> bool" where
  "wait_release [] = False"
| "wait_release ((c, d) # ps) = (if c \<or> d then wait_release ps else True)"

section \<open>Action processing\<close>

text \<open>
  The branch on LED value and button at the head of \<open>_handle_action\<close>: the pair
  \<open>(score_delta, soc_change)\<close> before the switch penalty.
\<close>

definition action_deltas :: "int \<Rightarrow> string \<Rightarrow> int \<Rightarrow> error + (int \<times> int)" where
  "action_deltas led_value button sensor_idx =
     (if led_value = 0 then
        (if button = ''charge'' then
           (case py_get SOC_INCREMENT sensor_idx of
              Inl e \<Rightarrow> Inl e | Inr inc \<Rightarrow> Inr (5, inc))
         else Inr (100, - 1))
      else
        (if button = ''charge'' then
           (case py_get SOC_INCREMENT sensor_idx of
              Inl e \<Rightarrow> Inl e | Inr inc \<Rightarrow> Inr (50, inc))
         else Inr (5, 0)))"

text \<open>
  \<open>_handle_action\<close>. \<open>now\<close> is the reading of \<open>time.time()\<close>, \<open>d\<close> the random draw
  used by \<open>_randomise_leds\<close>, \<open>rel\<close> the button polls of the closing release loop. The
  Boolean of the result tells whether the call has returned (it has not when the buttons
  are still held at the end of \<open>rel\<close>).
\<close>

definition handle_action ::
  "time \<Rightarrow> (nat \<Rightarrow> bool) \<Rightarrow> (bool \<times> bool) list \<Rightarrow> int \<Rightarrow> string \<Rightarrow> game \<Rightarrow> error + (bool \<times> game)"
where
  "handle_action now d rel sensor_idx button g =
     (case py_get (last_action_ts g) sensor_idx of
        Inl e \<Rightarrow> Inl e
      | Inr prev \<Rightarrow>
          if now - prev < 1 then Inr (True, g)
          else
            (case py_set (last_action_ts g) sensor_idx now of
               Inl e \<Rightarrow> Inl e
             | Inr ts \<Rightarrow>
                 (case py_get (led_values g) sensor_idx of
                    Inl e \<Rightarrow> Inl e
                  | Inr led_value \<Rightarrow>
                      (case action_deltas led_value button sensor_idx of
                         Inl e \<Rightarrow> Inl e
                       | Inr (score_delta, soc_change0) \<Rightarrow>
                           let soc_change =
                                 (if last_sensor g \<noteq> None \<and> last_sensor g \<noteq> Some sensor_idx
                                  then soc_change0 - 1 else soc_change0);
                               score' = score g + score_delta;
                               soc' = max 0 (min SOC_LEVELS (soc g + soc_change));
                               g1 = g\<lparr>last_action_ts := ts, last_sensor := Some sensor_idx,
                                      actions := actions g + 1, score := score', soc := soc'\<rparr>;
                               g2 = emit [UpdateScoreDisplay score', UpdateSocDisplay soc'] g1;
                               g3 = randomise_leds d (spin_windmill_briefly g2)
                           in Inr (wait_release rel, g3)))))"

text \<open>
  \<open>_start_new_round\<close> up to its last line; the call of \<open>_play_round\<close> that ends it
  is made by \<open>idle_loop\<close> below.
\<close>

definition start_new_round :: "(nat \<Rightarrow> bool) \<Rightarrow> game \<Rightarrow> game" where
  "start_new_round d g =
     (let g1 = randomise_leds d
                 (g\<lparr>actions := 0, soc := SOC_LEVELS div 2, last_sensor := None,
                    last_action_ts := replicate NUM_SENSORS 0\<rparr>)
      in emit [UpdateSocDisplay (soc g1)] g1)"

section \<open>Idle and the play loop\<close>

text \<open>
  What \<open>idle\<close> does before it starts to wait: everything dark, the last score shown.
\<close>

definition idle_entry :: "game \<Rightarrow> game" where
  "idle_entry g =
     emit (map (\<lambda>idx. SetLed idx ''off'' False) [0, 1, 2, 3] @
           [SetButtonLed ''charge'' False, SetButtonLed ''discharge'' False,
            SetWindmill False, UpdateScoreDisplay (score g)]) g"

text \<open>
  \<open>_full_reset\<close>: the score is cleared and \<open>idle\<close> is entered. The wait of \<open>idle\<close> for the
  next button press belongs to the next round and is continued by \<open>session\<close>.
\<close>

definition full_reset :: "game \<Rightarrow> game" where
  "full_reset g = idle_entry (g\<lparr>score := 0\<rparr>)"

text \<open>
  One pass through the body of the \<open>while\<close> loop of \<open>_play_round\<close> reads the inputs
  below, each field being one read of the source in the order of the code: the four
  sensors, the two buttons for the reset combo, the clock of the combo, the two buttons
  for the action, and, inside \<open>_handle_action\<close>, the clock, the random draw and the
  polls of the release loop.
\<close>

record tick =
  sensors :: "int \<Rightarrow> bool"
  combo_charge :: bool
  combo_discharge :: bool
  combo_time :: time
  act_charge :: bool
  act_discharge :: bool
  act_time :: time
  draw :: "nat \<Rightarrow> bool"
  release :: "(bool \<times> bool) list"

text \<open>
  Where the thread is when the modelled input ends: still in the idle loop, in the
  debounce loop of \<open>idle\<close>, in the play loop (with the local \<open>both_pressed_since\<close>), in the
  release loop of \<open>_handle_action\<close>; or the round is over, by the tenth action
  (\<open>Finished\<close>) or by the reset combo (\<open>ResetDone\<close>), and \<open>idle\<close> has been entered again.
\<close>

datatype outcome =
    Idling
  | Debouncing
  | Polling "time option"
  | Waiting
  | Finished
  | ResetDone

datatype phase = Idle | Playing

fun phase_of :: "outcome \<Rightarrow> phase" where
  "phase_of Idling = Idle"
| "phase_of Debouncing = Idle"
| "phase_of (Polling b) = Playing"
| "phase_of Waiting = Playing"
| "phase_of Finished = Idle"
| "phase_of ResetDone = Idle"

datatype tick_result = Next "time option" game | Exit outcome game

text \<open>The call of \<open>_handle_action\<close> a pass makes, if any: charge is tested first.\<close>

definition dispatch :: "tick \<Rightarrow> (int \<times> string) option" where
  "dispatch t =
     (case get_active_sensor (sensors t) of
        None \<Rightarrow> None
      | Some active \<Rightarrow>
          if act_charge t then Some (active, ''charge'')
          else if act_discharge t then Some (active, ''discharge'')
          else None)"

definition play_tick :: "time option \<Rightarrow> tick \<Rightarrow> game \<Rightarrow> error + tick_result" where
  "play_tick both_pressed_since t g =
     (let any_active = (get_active_sensor (sensors t) \<noteq> None);
          g1 = emit [SetButtonLed ''charge'' any_active, SetButtonLed ''discharge'' any_active] g;
          both = (combo_charge t \<and> combo_discharge t)
      in if both \<and> (case both_pressed_since of
                       None \<Rightarrow> False | Some since \<Rightarrow> combo_time t - since \<ge> 3)
         then Inr (Exit ResetDone (full_reset g1))
         else
           let bps = (if both
                      then (case both_pressed_since of
                              None \<Rightarrow> Some (combo_time t) | Some since \<Rightarrow> Some since)
                      else None)
           in (case dispatch t of
                 None \<Rightarrow> Inr (Next bps g1)
               | Some (active, button) \<Rightarrow>
                   (case handle_action (act_time t) (draw t) (release t) active button g1 of
                      Inl e \<Rightarrow> Inl e
                    | Inr (returned, g2) \<Rightarrow>
                        Inr (if returned then Next bps g2 else Exit Waiting g2))))"

text \<open>
  \<open>_play_round\<close> from its \<open>while\<close> on, the local \<open>both_pressed_since\<close> being an argument.
  The loop may run forever; it is run on a finite list of passes and answers where the
  thread is at the end of the list.
\<close>

fun play_round :: "time option \<Rightarrow> tick list \<Rightarrow> game \<Rightarrow> error + (outcome \<times> game)" where
  "play_round both_pressed_since [] g =
     (if actions g < MAX_ACTIONS then Inr (Polling both_pressed_since, g)
      else Inr (Finished, idle_entry g))"
| "play_round both_pressed_since (t # ts) g =
     (if actions g < MAX_ACTIONS then
        (case play_tick both_pressed_since t g of
           Inl e \<Rightarrow> Inl e
         | Inr (Next bps g') \<Rightarrow> play_round bps ts g'
         | Inr (Exit oc g') \<Rightarrow> Inr (oc, g'))
      else Inr (Finished, idle_entry g))"

text \<open>
  The inputs of one stay in \<open>idle\<close> and of the round it starts: the button polls of the
  idle loop, those of its debounce loop, the random draw of \<open>_start_new_round\<close> and the
  passes of the play loop.
\<close>

record round_input =
  idle_polls :: "(bool \<times> bool) list"
  debounce_polls :: "(bool \<times> bool) list"
  first_draw :: "nat \<Rightarrow> bool"
  ticks :: "tick list"

fun pressed_within :: "(bool \<times> bool) list \<Rightarrow> bool" where
  "pressed_within [] = False"
| "pressed_within ((c, d) # ps) = (if c \<or> d then True else pressed_within ps)"

text \<open>The \<open>while True\<close> of \<open>idle\<close>, with the round it starts.\<close>

definition idle_loop :: "round_input \<Rightarrow> game \<Rightarrow> error + (outcome \<times> game)" where
  "idle_loop r g =
     (if \<not> pressed_within (idle_polls r) then Inr (Idling, g)
      else if \<not> wait_release (debounce_polls r) then Inr (Debouncing, g)
      else play_round None (ticks r) (start_new_round (first_draw r) g))"

definition idle :: "round_input \<Rightarrow> game \<Rightarrow> error + (outcome \<times> game)" where
  "idle r g = idle_loop r (idle_entry g)"

text \<open>
  The chain of rounds: each call of \<open>idle\<close> at the end of a round waits for the next
  round's inputs.
\<close>

fun session :: "round_input list \<Rightarrow> game \<Rightarrow> error + (outcome \<times> game)" where
  "session [] g = Inr (Idling, g)"
| "session (r # rs) g =
     (case idle_loop r g of
        Inl e \<Rightarrow> Inl e
      | Inr (oc, g') \<Rightarrow> if oc = Finished \<or> oc = ResetDone then session rs g' else Inr (oc, g'))"

text \<open>\<open>__init__\<close>.\<close>

definition init_game :: game where
  "init_game = \<lparr>score = 0, actions = 0, soc = SOC_LEVELS div 2, last_sensor = None,
     last_action_ts = replicate NUM_SENSORS 0, led_values = replicate NUM_SENSORS 0,
     trace = []\<rparr>"

section \<open>The Game class of moonshot.py\<close>

text \<open>
  \<open>moonshot.py\<close> carries its own \<open>Game\<close> class beside its GUI classes. Its methods are
  embedded here one by one, from that file, under the names of the source prefixed with
  \<open>ms_\<close>. The calls of the hardware helpers are recorded in \<open>trace\<close> as above; that the
  helpers of \<open>moonshot.py\<close> hand the display updates over to the GUI thread is below the
  boundary of the model.
\<close>

definition ms_randomise_leds :: "(nat \<Rightarrow> bool) \<Rightarrow> game \<Rightarrow> game" where
  "ms_randomise_leds d g =
     (let vals = map (\<lambda>k. if d k then 1 else 0) [0 ..< NUM_SENSORS]
      in emit (map (\<lambda>(idx, val). SetLed (int idx) (LED_COLOR val) True) (enumerate 0 vals))
           (g\<lparr>led_values := vals\<rparr>))"

definition ms_spin_windmill_briefly :: "game \<Rightarrow> game" where
  "ms_spin_windmill_briefly g = emit [SetWindmill True, SetWindmill False] g"

definition ms_get_active_sensor :: "(int \<Rightarrow> bool) \<Rightarrow> int option" where
  "ms_get_active_sensor rd = List.find rd [0, 1, 2, 3]"

definition ms_action_deltas :: "int \<Rightarrow> string \<Rightarrow> int \<Rightarrow> error + (int \<times> int)" where
  "ms_action_deltas led_value button sensor_idx =
     (if led_value = 0 then
        (if button = ''charge'' then
           (case py_get SOC_INCREMENT sensor_idx of
              Inl e \<Rightarrow> Inl e | Inr inc \<Rightarrow> Inr (5, inc))
         else Inr (100, - 1))
      else
        (if button = ''charge'' then
           (case py_get SOC_INCREMENT sensor_idx of
              Inl e \<Rightarrow> Inl e | Inr inc \<Rightarrow> Inr (50, inc))
         else Inr (5, 0)))"

definition ms_handle_action ::
  "time \<Rightarrow> (nat \<Rightarrow> bool) \<Rightarrow> (bool \<times> bool) list \<Rightarrow> int \<Rightarrow> string \<Rightarrow> game \<Rightarrow> error + (bool \<times> game)"
where
  "ms_handle_action now d rel sensor_idx button g =
     (case py_get (last_action_ts g) sensor_idx of
        Inl e \<Rightarrow> Inl e
      | Inr prev \<Rightarrow>
          if now - prev < 1 then Inr (True, g)
          else
            (case py_set (last_action_ts g) sensor_idx now of
               Inl e \<Rightarrow> Inl e
             | Inr ts \<Rightarrow>
                 (case py_get (led_values g) sensor_idx of
                    Inl e \<Rightarrow> Inl e
                  | Inr led_value \<Rightarrow>
                      (case ms_action_deltas led_value button sensor_idx of
                         Inl e \<Rightarrow> Inl e
                       | Inr (score_delta, soc_change0) \<Rightarrow>
                           let soc_change =
                                 (if last_sensor g \<noteq> None \<and> last_sensor g \<noteq> Some sensor_idx
                                  then soc_change0 - 1 else soc_change0);
                               score' = score g + score_delta;
                               soc' = max 0 (min SOC_LEVELS (soc g + soc_change));
                               g1 = g\<lparr>last_action_ts := ts, last_sensor := Some sensor_idx,
                                      actions := actions g + 1, score := score', soc := soc'\<rparr>;
                               g2 = emit [UpdateScoreDisplay score', UpdateSocDisplay soc'] g1;
                               g3 = ms_randomise_leds d (ms_spin_windmill_briefly g2)
                           in Inr (wait_release rel, g3)))))"

definition ms_start_new_round :: "(nat \<Rightarrow> bool) \<Rightarrow> game \<Rightarrow> game" where
  "ms_start_new_round d g =
     (let g1 = ms_randomise_leds d
                 (g\<lparr>actions := 0, soc := SOC_LEVELS div 2, last_sensor := None,
                    last_action_ts := replicate NUM_SENSORS 0\<rparr>)
      in emit [UpdateSocDisplay (soc g1)] g1)"

definition ms_idle_entry :: "game \<Rightarrow> game" where
  "ms_idle_entry g =
     emit (map (\<lambda>idx. SetLed idx ''off'' False) [0, 1, 2, 3] @
           [SetButtonLed ''charge'' False, SetButtonLed ''discharge'' False,
            SetWindmill False, UpdateScoreDisplay (score g)]) g"

definition ms_full_reset :: "game \<Rightarrow> game" where
  "ms_full_reset g = ms_idle_entry (g\<lparr>score := 0\<rparr>)"

definition ms_dispatch :: "tick \<Rightarrow> (int \<times> string) option" where
  "ms_dispatch t =
     (case ms_get_active_sensor (sensors t) of
        None \<Rightarrow> None
      | Some active \<Rightarrow>
          if act_charge t then Some (active, ''charge'')
          else if act_discharge t then Some (active, ''discharge'')
          else None)"

definition ms_play_tick :: "time option \<Rightarrow> tick \<Rightarrow> game \<Rightarrow> error + tick_result" where
  "ms_play_tick both_pressed_since t g =
     (let any_active = (ms_get_active_sensor (sensors t) \<noteq> None);
          g1 = emit [SetButtonLed ''charge'' any_active, SetButtonLed ''discharge'' any_active] g;
          both = (combo_charge t \<and> combo_discharge t)
      in if both \<and> (case both_pressed_since of
                       None \<Rightarrow> False | Some since \<Rightarrow> combo_time t - since \<ge> 3)
         then Inr (Exit ResetDone (ms_full_reset g1))
         else
           let bps = (if both
                      then (case both_pressed_since of
                              None \<Rightarrow> Some (combo_time t) | Some since \<Rightarrow> Some since)
                      else None)
           in (case ms_dispatch t of
                 None \<Rightarrow> Inr (Next bps g1)
               | Some (active, button) \<Rightarrow>
                   (case ms_handle_action (act_time t) (draw t) (release t) active button g1 of
                      Inl e \<Rightarrow> Inl e
                    | Inr (returned, g2) \<Rightarrow>
                        Inr (if returned then Next bps g2 else Exit Waiting g2))))"

fun ms_play_round :: "time option \<Rightarrow> tick list \<Rightarrow> game \<Rightarrow> error + (outcome \<times> game)" where
  "ms_play_round both_pressed_since [] g =
     (if actions g < MAX_ACTIONS then Inr (Polling both_pressed_since, g)
      else Inr (Finished, ms_idle_entry g))"
| "ms_play_round both_pressed_since (t # ts) g =
     (if actions g < MAX_ACTIONS then
        (case ms_play_tick both_pressed_since t g of
           Inl e \<Rightarrow> Inl e
         | Inr (Next bps g') \<Rightarrow> ms_play_round bps ts g'
         | Inr (Exit oc g') \<Rightarrow> Inr (oc, g'))
      else Inr (Finished, ms_idle_entry g))"

definition ms_idle_loop :: "round_input \<Rightarrow> game \<Rightarrow> error + (outcome \<times> game)" where
  "ms_idle_loop r g =
     (if \<not> pressed_within (idle_polls r) then Inr (Idling, g)
      else if \<not> wait_release (debounce_polls r) then Inr (Debouncing, g)
      else ms_play_round None (ticks r) (ms_start_new_round (first_draw r) g))"

definition ms_idle :: "round_input \<Rightarrow> game \<Rightarrow> error + (outcome \<times> game)" where
  "ms_idle r g = ms_idle_loop r (ms_idle_entry g)"

fun ms_session :: "round_input list \<Rightarrow> game \<Rightarrow> error + (outcome \<times> game)" where
  "ms_session [] g = Inr (Idling, g)"
| "ms_session (r # rs) g =
     (case ms_idle_loop r g of
        Inl e \<Rightarrow> Inl e
      | Inr (oc, g') \<Rightarrow> if oc = Finished \<or> oc = ResetDone then ms_session rs g' else Inr (oc, g'))"

definition ms_init_game :: game where
  "ms_init_game = \<lparr>score = 0, actions = 0, soc = SOC_LEVELS div 2, last_sensor = None,
     last_action_ts = replicate NUM_SENSORS 0, led_values = replicate NUM_SENSORS 0,
     trace = []\<rparr>"

section \<open>Observations and concrete inputs\<close>

text \<open>The value of a field after a call, when the call did not raise.\<close>

definition after_action :: "(game \<Rightarrow> 'a) \<Rightarrow> error + (bool \<times> game) \<Rightarrow> 'a option" where
  "after_action f r = (case r of Inl e \<Rightarrow> None | Inr (returned, g) \<Rightarrow> Some (f g))"

definition after_tick :: "(game \<Rightarrow> 'a) \<Rightarrow> error + tick_result \<Rightarrow> 'a option" where
  "after_tick f r =
     (case r of Inl e \<Rightarrow> None | Inr (Next b g) \<Rightarrow> Some (f g) | Inr (Exit oc g) \<Rightarrow> Some (f g))"

definition after_round :: "(game \<Rightarrow> 'a) \<Rightarrow> error + (outcome \<times> game) \<Rightarrow> 'a option" where
  "after_round f r = (case r of Inl e \<Rightarrow> None | Inr (oc, g) \<Rightarrow> Some (f g))"

definition outcome_of :: "error + (outcome \<times> game) \<Rightarrow> outcome option" where
  "outcome_of r = (case r of Inl e \<Rightarrow> None | Inr (oc, g) \<Rightarrow> Some oc)"

text \<open>Random draws that turn every LED red, or every LED green.\<close>

definition draw_red :: "nat \<Rightarrow> bool" where
  "draw_red k = False"

definition draw_green :: "nat \<Rightarrow> bool" where
  "draw_green k = True"

text \<open>Sensor readings: none active, or sensor 0 alone.\<close>

definition no_sensor :: "int \<Rightarrow> bool" where
  "no_sensor idx = False"

definition sensor0 :: "int \<Rightarrow> bool" where
  "sensor0 idx = (idx = 0)"

text \<open>A fresh round with all LEDs red, and the same with a full battery after an action on sensor 0.\<close>

definition fresh_round :: game where
  "fresh_round = start_new_round draw_red init_game"

definition full_battery :: game where
  "full_battery = fresh_round\<lparr>soc := 10, last_sensor := Some 0\<rparr>"

text \<open>A round after its tenth action, with 150 points.\<close>

definition finished_round :: game where
  "finished_round = fresh_round\<lparr>score := 150, actions := 10\<rparr>"

text \<open>A round in which sensor 0 was used at clock 100.\<close>

definition recent_round :: game where
  "recent_round = fresh_round\<lparr>last_action_ts := [100, 0, 0, 0], last_sensor := Some 0\<rparr>"

text \<open>
  A pass in which sensor 0 is active and both buttons read pressed at every read, at clock
  \<open>c\<close>, the release loop seeing the polls \<open>rel\<close>.
\<close>

definition both_held :: "time \<Rightarrow> (bool \<times> bool) list \<Rightarrow> tick" where
  "both_held c rel = \<lparr>sensors = sensor0, combo_charge = True, combo_discharge = True,
     combo_time = c, act_charge = True, act_discharge = True, act_time = c,
     draw = draw_red, release = rel\<rparr>"

text \<open>The same with no sensor active.\<close>

definition both_held_idle :: "time \<Rightarrow> tick" where
  "both_held_idle c = \<lparr>sensors = no_sensor, combo_charge = True, combo_discharge = True,
     combo_time = c, act_charge = True, act_discharge = True, act_time = c,
     draw = draw_red, release = []\<rparr>"

text \<open>
  A pass in which sensor 0 is active and the discharge button alone is pressed at clock
  \<open>c\<close>, and released at the first poll of the release loop.
\<close>

definition discharge_tick :: "time \<Rightarrow> tick" where
  "discharge_tick c = \<lparr>sensors = sensor0, combo_charge = False, combo_discharge = True,
     combo_time = c, act_charge = False, act_discharge = True, act_time = c,
     draw = draw_red, release = [(False, False)]\<rparr>"

definition ten_discharges :: "tick list" where
  "ten_discharges = map discharge_tick [100, 102, 104, 106, 108, 110, 112, 114, 116, 118]"

text \<open>One stay in idle: a press of the charge button, its release, and a round of passes.\<close>

definition pressed_round :: "tick list \<Rightarrow> round_input" where
  "pressed_round ts = \<lparr>idle_polls = [(False, False), (True, False)],
     debounce_polls = [(True, False), (False, False)], first_draw = draw_red, ticks = ts\<rparr>"

section \<open>Facts about the helpers\<close>

declare NUM_SENSORS_def [simp] SOC_LEVELS_def [simp] MAX_ACTIONS_def [simp]

lemma py_get_in_range:
  "0 \<le> i \<Longrightarrow> i < int (length xs) \<Longrightarrow> py_get xs i = Inr (xs ! nat i)"
  by (simp add: py_get_def py_pos_def)

lemma py_set_in_range:
  "0 \<le> i \<Longrightarrow> i < int (length xs) \<Longrightarrow> py_set xs i v = Inr (xs[nat i := v])"
  by (simp add: py_set_def py_pos_def)

lemma py_set_defined:
  "py_get xs i = Inr v \<Longrightarrow> \<exists>ys. py_set xs i w = Inr ys \<and> length ys = length xs"
  by (auto simp add: py_get_def py_set_def split: option.splits)

lemma emit_fields [simp]:
  "soc (emit os g) = soc g" "score (emit os g) = score g" "actions (emit os g) = actions g"
  "last_sensor (emit os g) = last_sensor g" "last_action_ts (emit os g) = last_action_ts g"
  "led_values (emit os g) = led_values g"
  by (simp_all add: emit_def)

lemma randomise_fields [simp]:
  "soc (randomise_leds d g) = soc g" "score (randomise_leds d g) = score g"
  "actions (randomise_leds d g) = actions g" "last_sensor (randomise_leds d g) = last_sensor g"
  "last_action_ts (randomise_leds d g) = last_action_ts g"
  by (simp_all add: randomise_leds_def Let_def)

lemma leds_randomise:
  "led_values (randomise_leds d g) = map (\<lambda>k. if d k then 1 else 0) [0 ..< 4]"
  by (simp add: randomise_leds_def Let_def)

lemma spin_fields [simp]:
  "soc (spin_windmill_briefly g) = soc g" "score (spin_windmill_briefly g) = score g"
  "actions (spin_windmill_briefly g) = actions g"
  "last_sensor (spin_windmill_briefly g) = last_sensor g"
  "last_action_ts (spin_windmill_briefly g) = last_action_ts g"
  "led_values (spin_windmill_briefly g) = led_values g"
  by (simp_all add: spin_windmill_briefly_def)

lemma idle_entry_fields [simp]:
  "soc (idle_entry g) = soc g" "score (idle_entry g) = score g"
  "actions (idle_entry g) = actions g" "last_sensor (idle_entry g) = last_sensor g"
  "last_action_ts (idle_entry g) = last_action_ts g" "led_values (idle_entry g) = led_values g"
  by (simp_all add: idle_entry_def)

lemma start_fields:
  "score (start_new_round d g) = score g" "actions (start_new_round d g) = 0"
  "soc (start_new_round d g) = 5" "last_sensor (start_new_round d g) = None"
  "last_action_ts (start_new_round d g) = [0, 0, 0, 0]"
  "led_values (start_new_round d g) = map (\<lambda>k. if d k then 1 else 0) [0 ..< 4]"
  by (simp_all add: start_new_round_def Let_def leds_randomise numeral_eq_Suc)

lemma action_deltas_in_range:
  "0 \<le> i \<Longrightarrow> i < 4 \<Longrightarrow>
   action_deltas lv button i =
     Inr (if lv = 0 then (if button = ''charge'' then (5, [2, 3, 4, 2] ! nat i) else (100, - 1))
          else (if button = ''charge'' then (50, [2, 3, 4, 2] ! nat i) else (5, 0)))"
  by (simp add: action_deltas_def SOC_INCREMENT_def py_get_in_range)

lemma action_deltas_defined:
  "0 \<le> i \<Longrightarrow> i < 4 \<Longrightarrow> \<exists>sd sc. action_deltas lv button i = Inr (sd, sc)"
  by (simp add: action_deltas_in_range)

lemma handle_action_accepted:
  assumes "py_get (last_action_ts g) i = Inr prev" and "\<not> now - prev < 1"
    and "py_get (led_values g) i = Inr lv"
    and "action_deltas lv button i = Inr (sd, sc)"
  shows "\<exists>g'. handle_action now d rel i button g = Inr (wait_release rel, g') \<and>
           score g' = score g + sd \<and>
           soc g' = max 0 (min 10 (soc g + sc -
                      (if last_sensor g \<noteq> None \<and> last_sensor g \<noteq> Some i then 1 else 0))) \<and>
           actions g' = actions g + 1 \<and> last_sensor g' = Some i \<and>
           length (last_action_ts g') = length (last_action_ts g) \<and>
           py_get (last_action_ts g') i = Inr now \<and>
           led_values g' = map (\<lambda>k. if d k then 1 else 0) [0 ..< 4]"
proof -
  from assms(1) obtain ts where ts: "py_set (last_action_ts g) i now = Inr ts"
      "length ts = length (last_action_ts g)"
    using py_set_defined[of "last_action_ts g" i prev now] by blast
  from ts(1) assms(1) have "py_get ts i = Inr now"
    by (auto simp add: py_get_def py_set_def split: option.splits simp: py_pos_def Let_def split: if_splits)
  with ts show ?thesis using assms
    by (auto simp add: handle_action_def Let_def algebra_simps leds_randomise)
qed

section \<open>The score and SoC table\<close>

text \<open>
  Claim C1. An action on a sensor \<open>i\<close> of 0..3 that passes the cooldown of that sensor
  returns a state whose score has grown by \<open>sd\<close> and whose SoC is the clamp into 0..10 of
  the old SoC plus \<open>sc\<close> minus the switch penalty, where \<open>sd\<close> and \<open>sc\<close> are the row of
  the table for the LED value \<open>lv\<close> of the sensor and the button: red and charge give 5
  and the increment of the sensor from (2, 3, 4, 2), red and discharge 100 and -1, green
  and charge 50 and the increment, green and discharge 5 and 0. Every LED value other
  than 0 is treated as green and every button other than charge as discharge, so the four
  rows are all there is.
\<close>

theorem handle_action_table:
  assumes "0 \<le> i" and "i < 4"
    and "py_get (last_action_ts g) i = Inr prev" and "\<not> now - prev < 1"
    and "py_get (led_values g) i = Inr lv"
  shows "\<exists>g' sd sc.
           handle_action now d rel i button g = Inr (wait_release rel, g') \<and>
           score g' = score g + sd \<and>
           soc g' = max 0 (min 10 (soc g + sc -
                      (if last_sensor g \<noteq> None \<and> last_sensor g \<noteq> Some i then 1 else 0))) \<and>
           (lv = 0 \<and> button = ''charge'' \<longrightarrow> sd = 5 \<and> sc = [2, 3, 4, 2] ! nat i) \<and>
           (lv = 0 \<and> button \<noteq> ''charge'' \<longrightarrow> sd = 100 \<and> sc = - 1) \<and>
           (lv \<noteq> 0 \<and> button = ''charge'' \<longrightarrow> sd = 50 \<and> sc = [2, 3, 4, 2] ! nat i) \<and>
           (lv \<noteq> 0 \<and> button \<noteq> ''charge'' \<longrightarrow> sd = 5 \<and> sc = 0)"
proof -
  obtain sd sc where ad: "action_deltas lv button i = Inr (sd, sc)"
    using action_deltas_defined[OF assms(1,2)] by blast
  from handle_action_accepted[OF assms(3,4,5) ad, of d rel]
  obtain g' where "handle_action now d rel i button g = Inr (wait_release rel, g')"
    "score g' = score g + sd"
    "soc g' = max 0 (min 10 (soc g + sc -
                      (if last_sensor g \<noteq> None \<and> last_sensor g \<noteq> Some i then 1 else 0)))"
    by blast
  moreover from ad have
    "(lv = 0 \<and> button = ''charge'' \<longrightarrow> sd = 5 \<and> sc = [2, 3, 4, 2] ! nat i) \<and>
     (lv = 0 \<and> button \<noteq> ''charge'' \<longrightarrow> sd = 100 \<and> sc = - 1) \<and>
     (lv \<noteq> 0 \<and> button = ''charge'' \<longrightarrow> sd = 50 \<and> sc = [2, 3, 4, 2] ! nat i) \<and>
     (lv \<noteq> 0 \<and> button \<noteq> ''charge'' \<longrightarrow> sd = 5 \<and> sc = 0)"
    by (simp add: action_deltas_in_range[OF assms(1,2)] split: if_splits)
  ultimately show ?thesis by blast
qed

lemma fresh_round_fields:
  "score fresh_round = 0" "soc fresh_round = 5" "actions fresh_round = 0"
  "last_sensor fresh_round = None" "last_action_ts fresh_round = [0, 0, 0, 0]"
  "led_values fresh_round = [0, 0, 0, 0]"
  by (simp_all add: fresh_round_def start_fields init_game_def draw_red_def upt_rec)

text \<open>Sensor 2, red, charge, in a fresh round: 5 points, and the SoC goes from 5 to 9.\<close>

theorem handle_action_table_witness:
  "\<exists>g'. handle_action 100 draw_green [] 2 ''charge'' fresh_round = Inr (False, g') \<and>
        score g' = 5 \<and> soc g' = 9"
proof -
  have a: "py_get (last_action_ts fresh_round) 2 = Inr 0"
    by (simp add: fresh_round_fields py_get_def py_pos_def)
  have b: "py_get (led_values fresh_round) 2 = Inr 0"
    by (simp add: fresh_round_fields py_get_def py_pos_def)
  have c: "\<not> (100::rat) - 0 < 1" by simp
  from handle_action_table[of 2, OF _ _ a c b, of draw_green "[]" "''charge''"]
  show ?thesis by (auto simp add: fresh_round_fields)
qed

section \<open>The cooldown\<close>

text \<open>
  Claim C4. A call for a sensor whose stored time stamp is less than one second old
  returns at once with the state as it was: score, SoC, action count, last sensor, LED
  values, all time stamps, and the trace of hardware calls, so nothing was displayed,
  spun or redrawn and the release loop was not entered. The cooldown is that of the
  sensor alone: at the same clock a call for any sensor 0..3 whose own time stamp is at
  least one second old is accepted and counted.
\<close>

theorem cooldown_is_noop:
  assumes "py_get (last_action_ts g) i = Inr prev" and "now - prev < 1"
  shows "handle_action now d rel i button g = Inr (True, g) \<and>
         (\<forall>j prev' lv. 0 \<le> j \<and> j < 4 \<and> py_get (last_action_ts g) j = Inr prev' \<and>
              \<not> now - prev' < 1 \<and> py_get (led_values g) j = Inr lv \<longrightarrow>
              after_action actions (handle_action now d rel j button g) = Some (actions g + 1))"
proof
  show "handle_action now d rel i button g = Inr (True, g)"
    using assms by (simp add: handle_action_def)
next
  show "\<forall>j prev' lv. 0 \<le> j \<and> j < 4 \<and> py_get (last_action_ts g) j = Inr prev' \<and>
              \<not> now - prev' < 1 \<and> py_get (led_values g) j = Inr lv \<longrightarrow>
              after_action actions (handle_action now d rel j button g) = Some (actions g + 1)"
  proof (intro allI impI)
    fix j prev' lv
    assume h: "0 \<le> j \<and> j < 4 \<and> py_get (last_action_ts g) j = Inr prev' \<and>
              \<not> now - prev' < 1 \<and> py_get (led_values g) j = Inr lv"
    then obtain sd sc where ad: "action_deltas lv button j = Inr (sd, sc)"
      using action_deltas_defined[of j lv button] by blast
    from h handle_action_accepted[OF _ _ _ ad, of g prev' now d rel]
    show "after_action actions (handle_action now d rel j button g) = Some (actions g + 1)"
      by (auto simp add: after_action_def)
  qed
qed

text \<open>
  Sensor 0 was used at clock 100: at 100.5 it is refused, and sensor 1 is accepted.
\<close>

theorem cooldown_is_noop_witness:
  "handle_action (201 / 2) draw_red [] 0 ''charge'' recent_round = Inr (True, recent_round) \<and>
   after_action actions (handle_action (201 / 2) draw_red [] 1 ''charge'' recent_round) = Some 1"
proof -
  have a: "py_get (last_action_ts recent_round) 0 = Inr 100"
    by (simp add: recent_round_def py_get_def py_pos_def)
  have b: "(201 / 2 :: rat) - 100 < 1" by simp
  have c: "py_get (last_action_ts recent_round) 1 = Inr 0"
    by (simp add: recent_round_def py_get_def py_pos_def)
  have d: "py_get (led_values recent_round) 1 = Inr 0"
    by (simp add: recent_round_def fresh_round_fields py_get_def py_pos_def)
  have e: "actions recent_round = 0"
    by (simp add: recent_round_def fresh_round_fields)
  from cooldown_is_noop[OF a b, of draw_red "[]" "''charge''"] c d e
  show ?thesis by simp
qed

section \<open>The switch penalty\<close>

text \<open>
  Claim C3 says that an accepted action on a sensor other than the last one ends with a
  SoC exactly 1 below what the same action gives when the sensor is repeated. With a
  full battery, last sensor 0, a charge on the red sensor 1 ends at SoC 10 whether the
  last sensor was 0 or 1: the clamp swallows the penalty.
\<close>


theorem switch_penalty_counterexample:
  "after_action soc (handle_action 100 draw_red [] 1 ''charge'' full_battery) = Some 10 \<and>
   after_action soc (handle_action 100 draw_red [] 1 ''charge''
      (full_battery\<lparr>last_sensor := Some 1\<rparr>)) = Some 10 \<and>
   last_sensor full_battery = Some 0 \<and> (10::int) \<noteq> 10 - 1"
proof -
  have ts: "py_get (last_action_ts full_battery) 1 = Inr 0"
    "py_get (last_action_ts (full_battery\<lparr>last_sensor := Some 1\<rparr>)) 1 = Inr 0"
    by (simp_all add: full_battery_def fresh_round_fields py_get_def py_pos_def)
  have lv: "py_get (led_values full_battery) 1 = Inr 0"
    "py_get (led_values (full_battery\<lparr>last_sensor := Some 1\<rparr>)) 1 = Inr 0"
    by (simp_all add: full_battery_def fresh_round_fields py_get_def py_pos_def)
  have ad: "action_deltas 0 ''charge'' 1 = Inr (5, 3)"
    by (simp add: action_deltas_in_range)
  have c: "\<not> (100::rat) - 0 < 1" by simp
  from handle_action_accepted[OF ts(1) c lv(1) ad, of draw_red "[]"]
       handle_action_accepted[OF ts(2) c lv(2) ad, of draw_red "[]"]
  show ?thesis
    by (auto simp add: after_action_def full_battery_def)
qed

text \<open>
  Claim C3, amended. The switch takes exactly 1 from the SoC change before the clamp:
  the switched action ends at the clamp of \<open>soc + sc - 1\<close>, the repeated one at the clamp of
  \<open>soc + sc\<close>. So the switched result is exactly 1 lower when \<open>1 \<le> soc + sc \<le> 10\<close> and
  equal otherwise; score, action count and last sensor are the same in both.
\<close>

theorem switch_penalty_clamped:
  assumes "last_sensor g = Some j" and "j \<noteq> i"
    and "py_get (last_action_ts g) i = Inr prev" and "\<not> now - prev < 1"
    and "py_get (led_values g) i = Inr lv"
    and "action_deltas lv button i = Inr (sd, sc)"
  shows "\<exists>ga gb.
           handle_action now d rel i button g = Inr (wait_release rel, ga) \<and>
           handle_action now d rel i button (g\<lparr>last_sensor := Some i\<rparr>) =
             Inr (wait_release rel, gb) \<and>
           soc ga = max 0 (min 10 (soc g + (sc - 1))) \<and>
           soc gb = max 0 (min 10 (soc g + sc)) \<and>
           soc ga = (if 1 \<le> soc g + sc \<and> soc g + sc \<le> 10 then soc gb - 1 else soc gb) \<and>
           score ga = score gb \<and> actions ga = actions gb \<and> last_sensor ga = last_sensor gb"
proof -
  from handle_action_accepted[OF assms(3,4,5,6), of d rel] assms(1,2)
  obtain ga where ga: "handle_action now d rel i button g = Inr (wait_release rel, ga)"
    "soc ga = max 0 (min 10 (soc g + (sc - 1)))" "score ga = score g + sd"
    "actions ga = actions g + 1" "last_sensor ga = Some i"
    by (auto simp add: algebra_simps)
  from handle_action_accepted[of "g\<lparr>last_sensor := Some i\<rparr>" i prev now lv button sd sc d rel]
    assms(3,4,5,6)
  obtain gb where gb: "handle_action now d rel i button (g\<lparr>last_sensor := Some i\<rparr>) =
      Inr (wait_release rel, gb)"
    "soc gb = max 0 (min 10 (soc g + sc))" "score gb = score g + sd"
    "actions gb = actions g + 1" "last_sensor gb = Some i"
    by auto
  have "soc ga = (if 1 \<le> soc g + sc \<and> soc g + sc \<le> 10 then soc gb - 1 else soc gb)"
    using ga(2) gb(2) by auto
  with ga gb show ?thesis by simp
qed

text \<open>SoC 5, last sensor 0, a charge on the red sensor 1: 7 after the switch, 8 without.\<close>

theorem switch_penalty_clamped_witness:
  "\<exists>ga gb. handle_action 100 draw_red [] 1 ''charge'' recent_round = Inr (False, ga) \<and>
     handle_action 100 draw_red [] 1 ''charge'' (recent_round\<lparr>last_sensor := Some 1\<rparr>) =
       Inr (False, gb) \<and> soc ga = 7 \<and> soc gb = 8"
proof -
  have a: "last_sensor recent_round = Some 0" "(0::int) \<noteq> 1"
    by (simp_all add: recent_round_def)
  have ts: "py_get (last_action_ts recent_round) 1 = Inr 0"
    by (simp add: recent_round_def py_get_def py_pos_def)
  have lv: "py_get (led_values recent_round) 1 = Inr 0"
    by (simp add: recent_round_def fresh_round_fields py_get_def py_pos_def)
  have ad: "action_deltas 0 ''charge'' 1 = Inr (5, 3)"
    by (simp add: action_deltas_in_range)
  have c: "\<not> (100::rat) - 0 < 1" by simp
  have s: "soc recent_round = 5" by (simp add: recent_round_def fresh_round_fields)
  from switch_penalty_clamped[OF a ts c lv ad, of draw_red "[]"] s
  show ?thesis by auto
qed

section \<open>The example trace\<close>

text \<open>
  Claim C8. A round starts, with SoC 5. Sensor 0 is red (\<open>da 0\<close> is false) and discharge
  is pressed: the score grows by 100, the SoC is 4, one action is counted. The next draw
  turns sensor 1 green (\<open>db 1\<close>) and charge is pressed there: the score has grown by 150,
  the SoC is 6 (4 plus 3 minus the switch penalty), two actions are counted. Both calls
  are accepted whenever the clock is at least 1, the time stamps of a fresh round being 0.
\<close>


theorem example_trace:
  assumes "\<not> da 0" and "db 1" and "1 \<le> nowa" and "1 \<le> nowb"
  shows "\<exists>g1 g2.
     handle_action nowa db rela 0 ''discharge'' (start_new_round da g) = Inr (wait_release rela, g1) \<and>
     soc (start_new_round da g) = 5 \<and>
     score g1 = score g + 100 \<and> soc g1 = 4 \<and> actions g1 = 1 \<and>
     handle_action nowb dc relb 1 ''charge'' g1 = Inr (wait_release relb, g2) \<and>
     score g2 = score g + 150 \<and> soc g2 = 6 \<and> actions g2 = 2"
proof -
  let ?s = "start_new_round da g"
  have ts0: "py_get (last_action_ts ?s) 0 = Inr 0"
    by (simp add: start_fields py_get_def py_pos_def)
  have lv0: "py_get (led_values ?s) 0 = Inr 0"
    using assms(1) by (simp add: start_fields py_get_in_range)
  have ad0: "action_deltas 0 ''discharge'' 0 = Inr (100, - 1)"
    by (simp add: action_deltas_in_range)
  have c0: "\<not> nowa - 0 < 1" using assms(3) by simp
  from handle_action_accepted[OF ts0 c0 lv0 ad0, of db rela]
  obtain g1 where g1: "handle_action nowa db rela 0 ''discharge'' ?s = Inr (wait_release rela, g1)"
    "score g1 = score g + 100" "soc g1 = 4" "actions g1 = 1" "last_sensor g1 = Some 0"
    "length (last_action_ts g1) = 4" "py_get (last_action_ts g1) 0 = Inr nowa"
    "led_values g1 = map (\<lambda>k. if db k then 1 else 0) [0 ..< 4]"
    by (auto simp add: start_fields)
  have "last_action_ts g1 = [nowa, 0, 0, 0]"
    using g1(1) ts0 lv0 ad0 c0
    by (auto simp add: handle_action_def Let_def start_fields py_set_def py_pos_def)
  then have ts1: "py_get (last_action_ts g1) 1 = Inr 0"
    by (simp add: py_get_def py_pos_def)
  have lv1: "py_get (led_values g1) 1 = Inr 1"
    using assms(2) by (simp add: g1(8) py_get_in_range)
  have ad1: "action_deltas 1 ''charge'' 1 = Inr (50, 3)"
    by (simp add: action_deltas_in_range)
  have c1: "\<not> nowb - 0 < 1" using assms(4) by simp
  from handle_action_accepted[OF ts1 c1 lv1 ad1, of dc relb] g1
  obtain g2 where "handle_action nowb dc relb 1 ''charge'' g1 = Inr (wait_release relb, g2)"
    "score g2 = score g + 150" "soc g2 = 6" "actions g2 = 2"
    by auto
  with g1 show ?thesis by (simp add: start_fields)
qed

text \<open>The trace from the initial state, at clocks 100 and 102.\<close>

theorem example_trace_witness:
  "\<exists>g1 g2.
     handle_action 100 draw_green [] 0 ''discharge'' (start_new_round draw_red init_game) = Inr (False, g1) \<and>
     score g1 = 100 \<and> soc g1 = 4 \<and> actions g1 = 1 \<and>
     handle_action 102 draw_red [] 1 ''charge'' g1 = Inr (False, g2) \<and>
     score g2 = 150 \<and> soc g2 = 6 \<and> actions g2 = 2"
proof -
  have a: "\<not> draw_red 0" "draw_green 1" "(1::rat) \<le> 100" "(1::rat) \<le> 102"
    by (simp_all add: draw_red_def draw_green_def)
  have r: "\<exists>g1 g2.
     handle_action 100 draw_green [] 0 ''discharge'' (start_new_round draw_red init_game) =
       Inr (wait_release [], g1) \<and>
     soc (start_new_round draw_red init_game) = 5 \<and>
     score g1 = score init_game + 100 \<and> soc g1 = 4 \<and> actions g1 = 1 \<and>
     handle_action 102 draw_red [] 1 ''charge'' g1 = Inr (wait_release [], g2) \<and>
     score g2 = score init_game + 150 \<and> soc g2 = 6 \<and> actions g2 = 2"
    by (rule example_trace[where da = draw_red and db = draw_green and dc = draw_red
      and nowa = 100 and nowb = 102 and rela = "[]" and relb = "[]" and g = init_game, OF a])
  have "score init_game = 0" by (simp add: init_game_def)
  with r show ?thesis by auto
qed

section \<open>The play loop does not raise\<close>

lemma get_active_sensor_range:
  "get_active_sensor rd = Some a \<Longrightarrow> 0 \<le> a \<and> a < 4"
  by (auto simp add: get_active_sensor_def split: if_splits)

lemma dispatch_range: "dispatch t = Some (a, b) \<Longrightarrow> 0 \<le> a \<and> a < 4"
  by (auto simp add: dispatch_def dest: get_active_sensor_range split: option.splits if_splits)

lemma action_deltas_positive:
  "action_deltas lv button i = Inr (sd, sc) \<Longrightarrow> 0 < sd"
  by (auto simp add: action_deltas_def split: if_splits sum.splits)

text \<open>
  On a state with four time stamps and four LED values a call for a sensor 0..3 does
  not raise; it either leaves the state alone and returns (cooldown) or counts one action.
\<close>

lemma handle_action_total:
  assumes "length (last_action_ts g) = 4" and "length (led_values g) = 4"
    and "0 \<le> i" and "i < 4"
  shows "\<exists>r g'. handle_action now d rel i button g = Inr (r, g') \<and>
           length (last_action_ts g') = 4 \<and> length (led_values g') = 4 \<and>
           ((r \<and> g' = g) \<or>
            (actions g' = actions g + 1 \<and> 0 \<le> soc g' \<and> soc g' \<le> 10 \<and> score g < score g'))"
proof -
  have ts: "py_get (last_action_ts g) i = Inr (last_action_ts g ! nat i)"
    using assms by (simp add: py_get_in_range)
  have lv: "py_get (led_values g) i = Inr (led_values g ! nat i)"
    using assms by (simp add: py_get_in_range)
  show ?thesis
  proof (cases "now - last_action_ts g ! nat i < 1")
    case True
    then show ?thesis using ts assms(1,2) by (auto simp add: handle_action_def)
  next
    case False
    obtain sd sc where ad: "action_deltas (led_values g ! nat i) button i = Inr (sd, sc)"
      using action_deltas_defined[OF assms(3,4)] by blast
    from handle_action_accepted[OF ts False lv ad, of d rel] action_deltas_positive[OF ad] assms(1)
    show ?thesis by auto
  qed
qed

lemma full_reset_fields [simp]:
  "score (full_reset g) = 0" "soc (full_reset g) = soc g" "actions (full_reset g) = actions g"
  "last_action_ts (full_reset g) = last_action_ts g" "led_values (full_reset g) = led_values g"
  by (simp_all add: full_reset_def)

lemma play_tick_total:
  assumes "length (last_action_ts g) = 4" and "length (led_values g) = 4"
  shows "\<exists>res. play_tick bps t g = Inr res \<and>
     (case res of
        Next b g' \<Rightarrow> length (last_action_ts g') = 4 \<and> length (led_values g') = 4 \<and>
          ((actions g' = actions g \<and> soc g' = soc g \<and> score g' = score g) \<or>
           (actions g' = actions g + 1 \<and> 0 \<le> soc g' \<and> soc g' \<le> 10 \<and> score g < score g'))
      | Exit oc g' \<Rightarrow>
          (oc = ResetDone \<and> score g' = 0 \<and> actions g' = actions g \<and> soc g' = soc g) \<or>
          (oc = Waiting \<and> actions g' = actions g + 1 \<and> 0 \<le> soc g' \<and> soc g' \<le> 10 \<and>
             score g < score g'))"
proof (cases "dispatch t")
  case None
  then show ?thesis using assms
    by (simp add: play_tick_def Let_def)
next
  case (Some ab)
  obtain a b where ab: "ab = (a, b)" by (cases ab)
  let ?g1 = "emit [SetButtonLed ''charge'' (get_active_sensor (sensors t) \<noteq> None),
                   SetButtonLed ''discharge'' (get_active_sensor (sensors t) \<noteq> None)] g"
  from Some ab have r: "0 \<le> a" "a < 4" using dispatch_range by blast+
  from handle_action_total[of ?g1 a "act_time t" "draw t" "release t" b] assms r
  obtain r g' where h: "handle_action (act_time t) (draw t) (release t) a b ?g1 = Inr (r, g')"
    "length (last_action_ts g') = 4" "length (led_values g') = 4"
    "(r \<and> g' = ?g1) \<or>
       (actions g' = actions g + 1 \<and> 0 \<le> soc g' \<and> soc g' \<le> 10 \<and> score g < score g')"
    by auto
  show ?thesis
    using Some ab h by (auto simp add: play_tick_def Let_def)
qed

lemma play_round_general:
  assumes "length (last_action_ts g) = 4" and "length (led_values g) = 4"
    and "0 \<le> soc g" and "soc g \<le> 10" and "actions g \<le> 10"
  shows "\<exists>oc g'. play_round bps ts g = Inr (oc, g') \<and>
           0 \<le> soc g' \<and> soc g' \<le> 10 \<and> actions g \<le> actions g' \<and> actions g' \<le> 10 \<and>
           (oc = Finished \<longrightarrow> actions g' = 10) \<and>
           (actions g' = 10 \<longrightarrow> oc = Finished \<or> oc = Waiting) \<and>
           (oc = ResetDone \<longrightarrow> score g' = 0 \<and> actions g' < 10) \<and>
           (oc \<noteq> ResetDone \<longrightarrow> score g \<le> score g') \<and>
           oc \<noteq> Idling \<and> oc \<noteq> Debouncing"
  using assms
proof (induction ts arbitrary: bps g)
  case Nil
  then show ?case by simp
next
  case (Cons t ts)
  show ?case
  proof (cases "actions g < 10")
    case False
    with Cons.prems show ?thesis by simp
  next
    case True
    from play_tick_total[OF Cons.prems(1,2), of bps t]
    obtain res where res: "play_tick bps t g = Inr res"
      and props: "(case res of
        Next b g' \<Rightarrow> length (last_action_ts g') = 4 \<and> length (led_values g') = 4 \<and>
          ((actions g' = actions g \<and> soc g' = soc g \<and> score g' = score g) \<or>
           (actions g' = actions g + 1 \<and> 0 \<le> soc g' \<and> soc g' \<le> 10 \<and> score g < score g'))
      | Exit oc g' \<Rightarrow>
          (oc = ResetDone \<and> score g' = 0 \<and> actions g' = actions g \<and> soc g' = soc g) \<or>
          (oc = Waiting \<and> actions g' = actions g + 1 \<and> 0 \<le> soc g' \<and> soc g' \<le> 10 \<and>
             score g < score g'))"
      by blast
    show ?thesis
    proof (cases res)
      case (Next b g1)
      with props have p: "length (last_action_ts g1) = 4" "length (led_values g1) = 4"
        "0 \<le> soc g1" "soc g1 \<le> 10" "actions g1 \<le> 10" "actions g \<le> actions g1"
        "score g \<le> score g1"
        using Cons.prems True by auto
      from Cons.IH[OF p(1-5), of b]
      obtain oc g' where "play_round b ts g1 = Inr (oc, g')"
           "0 \<le> soc g'" "soc g' \<le> 10" "actions g1 \<le> actions g'" "actions g' \<le> 10"
           "oc = Finished \<longrightarrow> actions g' = 10"
           "actions g' = 10 \<longrightarrow> oc = Finished \<or> oc = Waiting"
           "oc = ResetDone \<longrightarrow> score g' = 0 \<and> actions g' < 10"
           "oc \<noteq> ResetDone \<longrightarrow> score g1 \<le> score g'"
           "oc \<noteq> Idling" "oc \<noteq> Debouncing"
        by blast
      with p(6,7) True res Next show ?thesis by auto
    next
      case (Exit oc g1)
      with props True res Cons.prems show ?thesis by auto
    qed
  qed
qed

text \<open>The definitions a concrete run unfolds.\<close>

lemmas eval_simps = play_tick_def dispatch_def get_active_sensor_def handle_action_def
  action_deltas_def py_get_def py_set_def py_pos_def SOC_INCREMENT_def Let_def
  randomise_leds_def spin_windmill_briefly_def emit_def idle_entry_def full_reset_def
  start_new_round_def init_game_def LED_COLOR_def draw_red_def draw_green_def sensor0_def
  no_sensor_def fresh_round_def discharge_tick_def ten_discharges_def both_held_def
  both_held_idle_def outcome_of_def after_round_def after_tick_def after_action_def

lemma start_shape:
  "length (last_action_ts (start_new_round d g)) = 4"
  "length (led_values (start_new_round d g)) = 4"
  by (simp_all add: start_fields)

section \<open>The SoC stays in bounds\<close>

text \<open>
  Claim C2. A round started by \<open>_start_new_round\<close> has SoC 5, and whatever the play loop
  then reads, pass after pass (every list of passes, so every prefix of a run), the loop
  does not raise and the SoC it has reached lies between 0 and \<open>SOC_LEVELS\<close> = 10: each
  accepted action stores the clamp of \<open>soc + soc_change\<close>, everything else leaves the SoC
  alone.
\<close>

theorem soc_stays_in_bounds:
  "\<exists>oc g'. play_round None ts (start_new_round d g) = Inr (oc, g') \<and>
     soc (start_new_round d g) = 5 \<and> 0 \<le> soc g' \<and> soc g' \<le> SOC_LEVELS"
proof -
  from play_round_general[OF start_shape, of d g None ts]
  obtain oc g' where "play_round None ts (start_new_round d g) = Inr (oc, g')"
    "0 \<le> soc g'" "soc g' \<le> 10"
    by (auto simp add: start_fields)
  then show ?thesis by (simp add: start_fields)
qed

text \<open>Ten discharges on a red sensor take the SoC from 5 down to 0, and not below.\<close>

theorem soc_stays_in_bounds_witness:
  "after_round soc (play_round None ten_discharges (start_new_round draw_red init_game)) = Some 0"
proof -
  from soc_stays_in_bounds[of ten_discharges draw_red init_game]
  obtain oc g' where r: "play_round None ten_discharges (start_new_round draw_red init_game) = Inr (oc, g')"
    "0 \<le> soc g'" by blast
  have "after_round soc (play_round None ten_discharges fresh_round) = Some 0"
    by (simp add: eval_simps)
  then show ?thesis by (simp add: fresh_round_def)
qed

lemma rejected_not_counted:
  assumes "dispatch t = Some (a, button)" and "py_get (last_action_ts g) a = Inr prev"
    and "act_time t - prev < 1"
  shows "after_tick actions (play_tick bps t g) = Some (actions g)"
proof -
  let ?g1 = "emit [SetButtonLed ''charge'' (get_active_sensor (sensors t) \<noteq> None),
                   SetButtonLed ''discharge'' (get_active_sensor (sensors t) \<noteq> None)] g"
  have "handle_action (act_time t) (draw t) (release t) a button ?g1 = Inr (True, ?g1)"
    using assms(2,3) by (simp add: handle_action_def)
  then show ?thesis using assms(1)
    by (simp add: play_tick_def Let_def after_tick_def)
qed

section \<open>The end of a round\<close>

text \<open>
  Claim C5. In a round started by \<open>_start_new_round\<close> the count of accepted actions
  starts at 0 and never exceeds \<open>MAX_ACTIONS\<close> = 10. The loop is left for \<open>idle\<close> without
  a reset (\<open>Finished\<close>) only with a count of exactly 10; a reset leaves it with fewer than
  10; and once the count is 10 the loop has been left, the thread being in \<open>idle\<close> or, as
  long as the buttons of the tenth action are still held, in the release loop that ends
  that action. The phase is Idle only after one of the two exits. An action refused by
  the cooldown leaves the count as it was, in every pass.
\<close>

theorem round_ends_at_ten_actions:
  "(\<exists>oc g'. play_round None ts (start_new_round d g) = Inr (oc, g') \<and>
      actions (start_new_round d g) = 0 \<and> actions g' \<le> MAX_ACTIONS \<and>
      (oc = Finished \<longrightarrow> actions g' = MAX_ACTIONS) \<and>
      (actions g' = MAX_ACTIONS \<longrightarrow> oc = Finished \<or> oc = Waiting) \<and>
      (oc = ResetDone \<longrightarrow> actions g' < MAX_ACTIONS) \<and>
      (phase_of oc = Idle \<longrightarrow> oc = Finished \<or> oc = ResetDone)) \<and>
   (\<forall>t a button h prev bps.
      dispatch t = Some (a, button) \<and> py_get (last_action_ts h) a = Inr prev \<and>
      act_time t - prev < 1 \<longrightarrow>
      after_tick actions (play_tick bps t h) = Some (actions h))"
proof
  from play_round_general[OF start_shape, of d g None ts]
  obtain oc g' where r: "play_round None ts (start_new_round d g) = Inr (oc, g')"
    "actions g' \<le> 10" "oc = Finished \<longrightarrow> actions g' = 10"
    "actions g' = 10 \<longrightarrow> oc = Finished \<or> oc = Waiting"
    "oc = ResetDone \<longrightarrow> actions g' < 10" "oc \<noteq> Idling" "oc \<noteq> Debouncing"
    by (auto simp add: start_fields)
  have "phase_of oc = Idle \<longrightarrow> oc = Finished \<or> oc = ResetDone"
    using r(6,7) by (cases oc) simp_all
  with r show "\<exists>oc g'. play_round None ts (start_new_round d g) = Inr (oc, g') \<and>
      actions (start_new_round d g) = 0 \<and> actions g' \<le> MAX_ACTIONS \<and>
      (oc = Finished \<longrightarrow> actions g' = MAX_ACTIONS) \<and>
      (actions g' = MAX_ACTIONS \<longrightarrow> oc = Finished \<or> oc = Waiting) \<and>
      (oc = ResetDone \<longrightarrow> actions g' < MAX_ACTIONS) \<and>
      (phase_of oc = Idle \<longrightarrow> oc = Finished \<or> oc = ResetDone)"
    by (simp add: start_fields)
next
  show "\<forall>t a button h prev bps.
      dispatch t = Some (a, button) \<and> py_get (last_action_ts h) a = Inr prev \<and>
      act_time t - prev < 1 \<longrightarrow>
      after_tick actions (play_tick bps t h) = Some (actions h)"
    using rejected_not_counted by blast
qed

text \<open>
  Ten accepted discharges end the round, nine do not, and a discharge half a second
  after the last one on the same sensor is not counted.
\<close>

theorem round_ends_at_ten_actions_witness:
  "outcome_of (play_round None ten_discharges (start_new_round draw_red init_game)) = Some Finished \<and>
   after_round actions (play_round None ten_discharges (start_new_round draw_red init_game)) = Some 10 \<and>
   outcome_of (play_round None (butlast ten_discharges) (start_new_round draw_red init_game)) =
     Some (Polling None) \<and>
   after_tick actions (play_tick None (discharge_tick (201 / 2)) recent_round) = Some 0"
proof -
  have e: "after_round actions (play_round None ten_discharges fresh_round) = Some 10"
    by (simp add: eval_simps)
  have f: "outcome_of (play_round None (butlast ten_discharges) fresh_round) = Some (Polling None)"
    by (simp add: eval_simps)
  have w: "outcome_of (play_round None ten_discharges fresh_round) \<noteq> Some Waiting"
    by (simp add: eval_simps)
  have d: "dispatch (discharge_tick (201 / 2)) = Some (0, ''discharge'')"
    by (simp add: eval_simps)
  have p: "py_get (last_action_ts recent_round) 0 = Inr 100"
    by (simp add: recent_round_def py_get_def py_pos_def)
  have c: "act_time (discharge_tick (201 / 2)) - 100 < 1"
    by (simp add: discharge_tick_def)
  have z: "actions recent_round = 0"
    by (simp add: recent_round_def fresh_round_fields)
  note main = round_ends_at_ten_actions[of ten_discharges draw_red init_game]
  from main have "after_tick actions (play_tick None (discharge_tick (201 / 2)) recent_round) =
      Some (actions recent_round)"
    using d p c by blast
  with z have t: "after_tick actions (play_tick None (discharge_tick (201 / 2)) recent_round) = Some 0"
    by simp
  from main e w
  have "outcome_of (play_round None ten_discharges (start_new_round draw_red init_game)) = Some Finished \<and>
    after_round actions (play_round None ten_discharges (start_new_round draw_red init_game)) = Some 10"
    by (auto simp add: fresh_round_def outcome_of_def after_round_def)
  with f t show ?thesis by (simp add: fresh_round_def)
qed

section \<open>The score across rounds\<close>

text \<open>
  Claim C9. Entering \<open>idle\<close> and starting a round leave the score as it is; the end of a
  round after its tenth action hands the state to \<open>idle\<close> with nothing but the idle
  outputs added; \<open>_full_reset\<close> sets the score to 0, and within a round the score never
  goes down unless the round ends by that reset. \<open>_start_new_round\<close> always sets the SoC
  to 5 (\<open>SOC_LEVELS // 2\<close>), the action count to 0, the last sensor to None and the four
  time stamps to 0.
\<close>

theorem score_survives_rounds:
  "score (idle_entry g) = score g \<and>
   score (start_new_round d g) = score g \<and>
   (\<not> actions g < MAX_ACTIONS \<longrightarrow>
      play_round bps ts g = Inr (Finished, idle_entry g)) \<and>
   score (full_reset g) = 0 \<and>
   (\<exists>oc g'. play_round None ts (start_new_round d g) = Inr (oc, g') \<and>
      (oc = ResetDone \<longrightarrow> score g' = 0) \<and> (oc \<noteq> ResetDone \<longrightarrow> score g \<le> score g')) \<and>
   soc (start_new_round d g) = 5 \<and> SOC_LEVELS div 2 = 5 \<and>
   actions (start_new_round d g) = 0 \<and>
   last_sensor (start_new_round d g) = None \<and>
   last_action_ts (start_new_round d g) = [0, 0, 0, 0]"
proof -
  from play_round_general[OF start_shape, of d g None ts]
  obtain oc g' where r: "play_round None ts (start_new_round d g) = Inr (oc, g')"
    "oc = ResetDone \<longrightarrow> score g' = 0" "oc \<noteq> ResetDone \<longrightarrow> score g \<le> score g'"
    by (auto simp add: start_fields)
  have e: "\<not> actions g < MAX_ACTIONS \<longrightarrow> play_round bps ts g = Inr (Finished, idle_entry g)"
    by (cases ts) simp_all
  from r e show ?thesis by (simp add: start_fields)
qed

text \<open>
  A state with 150 points: idle entry, a new round and the end of the round keep them, an
  action adds to them, the reset combo clears them.
\<close>

theorem score_survives_rounds_witness:
  "score (idle_entry finished_round) = 150 \<and>
   score (start_new_round draw_green finished_round) = 150 \<and>
   play_round None [discharge_tick 100] finished_round = Inr (Finished, idle_entry finished_round) \<and>
   score (full_reset finished_round) = 0 \<and>
   after_round score (play_round None [discharge_tick 100] (start_new_round draw_red finished_round))
     = Some 250 \<and>
   outcome_of (play_round None [both_held_idle 100, both_held_idle 103]
     (start_new_round draw_red finished_round)) = Some ResetDone \<and>
   after_round score (play_round None [both_held_idle 100, both_held_idle 103]
     (start_new_round draw_red finished_round)) = Some 0 \<and>
   actions (start_new_round draw_green finished_round) = 0 \<and>
   soc (start_new_round draw_green finished_round) = 5"
proof -
  have a: "score finished_round = 150" "\<not> actions finished_round < MAX_ACTIONS"
    by (simp_all add: finished_round_def)
  have b: "after_round score (play_round None [discharge_tick 100] (start_new_round draw_red finished_round))
     = Some 250"
    by (simp add: finished_round_def eval_simps)
  have c: "outcome_of (play_round None [both_held_idle 100, both_held_idle 103]
     (start_new_round draw_red finished_round)) = Some ResetDone"
    by (simp add: finished_round_def eval_simps)
  from score_survives_rounds[of finished_round draw_green None "[discharge_tick 100]"]
       score_survives_rounds[of finished_round draw_red None "[both_held_idle 100, both_held_idle 103]"]
       a b c
  show ?thesis by (auto simp add: outcome_of_def after_round_def)
qed

text \<open>
  Across rounds: from the initial state a button press starts a round, ten discharges on
  the red sensor 0 end it with 1000 points, a second press starts the next round, and
  there the score is still 1000 while the SoC is 5 and the action count 0 again.
\<close>

lemma session_keeps_score:
  "outcome_of (session [pressed_round ten_discharges, pressed_round []] (idle_entry init_game)) =
     Some (Polling None) \<and>
   after_round score (session [pressed_round ten_discharges, pressed_round []] (idle_entry init_game)) =
     Some 1000 \<and>
   after_round soc (session [pressed_round ten_discharges, pressed_round []] (idle_entry init_game)) =
     Some 5 \<and>
   after_round actions (session [pressed_round ten_discharges, pressed_round []] (idle_entry init_game)) =
     Some 0"
  by (simp add: eval_simps idle_loop_def pressed_round_def)

section \<open>The reset combo\<close>

text \<open>
  While both buttons stay pressed the release loop is not left.
\<close>

lemma wait_release_held: "wait_release (replicate n (True, True)) = False"
  by (induction n) simp_all

text \<open>
  With no sensor active, a combo that started at \<open>since\<close> and is read as held at every
  pass ends the round by \<open>_full_reset\<close> at the first pass whose clock is 3 or more
  seconds later, whatever the action count below 10: the score is 0 and \<open>idle\<close> is
  entered.
\<close>

lemma reset_combo_without_sensor:
  assumes "actions g < 10"
    and "\<forall>t \<in> set ts. get_active_sensor (sensors t) = None \<and> combo_charge t \<and> combo_discharge t"
    and "\<exists>t \<in> set ts. combo_time t - since \<ge> 3"
  shows "\<exists>g'. play_round (Some since) ts g = Inr (ResetDone, g') \<and> score g' = 0"
  using assms
proof (induction ts arbitrary: g)
  case Nil
  then show ?case by simp
next
  case (Cons t ts)
  let ?g1 = "emit [SetButtonLed ''charge'' False, SetButtonLed ''discharge'' False] g"
  from Cons.prems(2) have t: "get_active_sensor (sensors t) = None" "combo_charge t" "combo_discharge t"
    by simp_all
  show ?case
  proof (cases "combo_time t - since \<ge> 3")
    case True
    with t Cons.prems(1) show ?thesis
      by (simp add: play_tick_def Let_def)
  next
    case False
    with t have step: "play_tick (Some since) t g = Inr (Next (Some since) ?g1)"
      by (simp add: play_tick_def Let_def dispatch_def)
    from False Cons.prems(3) have ex: "\<exists>t \<in> set ts. combo_time t - since \<ge> 3" by auto
    from Cons.prems(2) have all: "\<forall>t \<in> set ts. get_active_sensor (sensors t) = None \<and>
        combo_charge t \<and> combo_discharge t" by simp
    have "actions ?g1 < 10" using Cons.prems(1) by simp
    from Cons.IH[OF this all ex] step Cons.prems(1) show ?thesis by simp
  qed
qed

text \<open>
  Claim C6 promises the reset for every hold of 3 seconds, as the docstring of the module
  does. With sensor 0 active it does not come. The pass that first reads both buttons
  pressed, at clock 100 in a fresh round, notes the time and goes on to the action
  branch, where the charge button is tested first: \<open>_handle_action\<close> accepts a charge on
  the red sensor, 5 points, and waits in its release loop. However many polls \<open>n\<close> of
  that loop read the buttons pressed, and whatever the passes \<open>ts\<close> that would follow, the
  thread is still there, the score is 5 and one action is counted: no reset, no idle.
\<close>

theorem reset_combo_preempted_by_action:
  "outcome_of (play_round None (both_held 100 (replicate n (True, True)) # ts) fresh_round) =
     Some Waiting \<and>
   after_round score (play_round None (both_held 100 (replicate n (True, True)) # ts) fresh_round) =
     Some 5 \<and>
   after_round actions (play_round None (both_held 100 (replicate n (True, True)) # ts) fresh_round) =
     Some 1"
  by (simp add: eval_simps wait_release_held)

section \<open>Both buttons pressed, combo under 3 seconds\<close>

text \<open>
  Claim C7 says that such a pass takes no scoring action. The combo started at clock 100;
  at 101 sensor 0 is active and both buttons read pressed: the pass calls
  \<open>_handle_action\<close> for sensor 0 with charge, and a fresh round goes from 0 actions and 0
  points to 1 action and 5 points.
\<close>

theorem both_buttons_counterexample:
  "dispatch (both_held 101 [(False, False)]) = Some (0, ''charge'') \<and>
   actions fresh_round = 0 \<and> score fresh_round = 0 \<and>
   after_tick actions (play_tick (Some 100) (both_held 101 [(False, False)]) fresh_round) = Some 1 \<and>
   after_tick score (play_tick (Some 100) (both_held 101 [(False, False)]) fresh_round) = Some 5"
  by (simp add: eval_simps)

text \<open>
  Claim C7, amended. In a pass that reads both buttons pressed at the combo test, and
  charge pressed at the action test, with no combo of 3 seconds reached, the reset check
  only starts or keeps the combo timer and the pass goes on: with no sensor active
  nothing is called and the state changes by the two button LED commands alone; with a
  sensor active \<open>_handle_action\<close> is called for it with charge, which is tested before
  discharge.
\<close>

theorem both_buttons_charge_first:
  assumes "combo_charge t" and "combo_discharge t" and "act_charge t"
    and "\<forall>since. bps = Some since \<longrightarrow> combo_time t - since < 3"
  shows "dispatch t = map_option (\<lambda>a. (a, ''charge'')) (get_active_sensor (sensors t)) \<and>
         play_tick bps t g =
           (case get_active_sensor (sensors t) of
              None \<Rightarrow>
                Inr (Next (Some (case bps of None \<Rightarrow> combo_time t | Some since \<Rightarrow> since))
                       (emit [SetButtonLed ''charge'' False, SetButtonLed ''discharge'' False] g))
            | Some a \<Rightarrow>
                (case handle_action (act_time t) (draw t) (release t) a ''charge''
                        (emit [SetButtonLed ''charge'' True, SetButtonLed ''discharge'' True] g) of
                   Inl e \<Rightarrow> Inl e
                 | Inr (returned, g2) \<Rightarrow>
                     Inr (if returned
                          then Next (Some (case bps of None \<Rightarrow> combo_time t | Some since \<Rightarrow> since)) g2
                          else Exit Waiting g2)))"
proof
  show "dispatch t = map_option (\<lambda>a. (a, ''charge'')) (get_active_sensor (sensors t))"
    using assms(3) by (simp add: dispatch_def split: option.splits)
next
  have no_reset: "\<not> (case bps of None \<Rightarrow> False | Some since \<Rightarrow> combo_time t - since \<ge> 3)"
    using assms(4) by (cases bps) (simp_all add: not_le)
  show "play_tick bps t g =
           (case get_active_sensor (sensors t) of
              None \<Rightarrow>
                Inr (Next (Some (case bps of None \<Rightarrow> combo_time t | Some since \<Rightarrow> since))
                       (emit [SetButtonLed ''charge'' False, SetButtonLed ''discharge'' False] g))
            | Some a \<Rightarrow>
                (case handle_action (act_time t) (draw t) (release t) a ''charge''
                        (emit [SetButtonLed ''charge'' True, SetButtonLed ''discharge'' True] g) of
                   Inl e \<Rightarrow> Inl e
                 | Inr (returned, g2) \<Rightarrow>
                     Inr (if returned
                          then Next (Some (case bps of None \<Rightarrow> combo_time t | Some since \<Rightarrow> since)) g2
                          else Exit Waiting g2)))"
    using assms(1,2,3) no_reset
    by (cases bps; cases "get_active_sensor (sensors t)")
       (simp_all add: play_tick_def dispatch_def Let_def split: sum.splits)
qed

text \<open>The pass at clock 101, combo since 100: with sensor 0 active, and with none.\<close>

theorem both_buttons_charge_first_witness:
  "dispatch (both_held 101 [(False, False)]) = Some (0, ''charge'') \<and>
   after_tick actions (play_tick (Some 100) (both_held 101 [(False, False)]) fresh_round) = Some 1 \<and>
   dispatch (both_held_idle 101) = None \<and>
   play_tick (Some 100) (both_held_idle 101) fresh_round =
     Inr (Next (Some 100)
       (emit [SetButtonLed ''charge'' False, SetButtonLed ''discharge'' False] fresh_round))"
proof -
  let ?t = "both_held 101 [(False, False)]"
  let ?g1 = "emit [SetButtonLed ''charge'' True, SetButtonLed ''discharge'' True] fresh_round"
  have a: "combo_charge ?t" "combo_discharge ?t" "act_charge ?t"
    "\<forall>since. Some (100::rat) = Some since \<longrightarrow> combo_time ?t - since < 3"
    by (simp_all add: both_held_def)
  have b: "combo_charge (both_held_idle 101)"
    "combo_discharge (both_held_idle 101)" "act_charge (both_held_idle 101)"
    "\<forall>since. Some (100::rat) = Some since \<longrightarrow> combo_time (both_held_idle 101) - since < 3"
    by (simp_all add: both_held_idle_def)
  have s: "get_active_sensor (sensors ?t) = Some 0"
    "get_active_sensor (sensors (both_held_idle 101)) = None"
    by (simp_all add: both_held_def both_held_idle_def get_active_sensor_def sensor0_def no_sensor_def)
  have f: "act_time ?t = 101" "draw ?t = draw_red" "release ?t = [(False, False)]"
    by (simp_all add: both_held_def)
  have ts: "py_get (last_action_ts ?g1) 0 = Inr 0" and lv: "py_get (led_values ?g1) 0 = Inr 0"
    by (simp_all add: fresh_round_fields py_get_def py_pos_def)
  have ad: "action_deltas 0 ''charge'' 0 = Inr (5, 2)"
    by (simp add: action_deltas_in_range)
  have c: "\<not> (101::rat) - 0 < 1" by simp
  from handle_action_accepted[OF ts c lv ad, of draw_red "[(False, False)]"]
  obtain g' where h: "handle_action 101 draw_red [(False, False)] 0 ''charge'' ?g1 = Inr (True, g')"
    "actions g' = 1"
    by (auto simp add: fresh_round_fields)
  from both_buttons_charge_first[OF a, of fresh_round]
  have "dispatch ?t = Some (0, ''charge'')"
    and "play_tick (Some 100) ?t fresh_round = Inr (Next (Some 100) g')"
    by (simp_all add: s f h)
  moreover from both_buttons_charge_first[OF b, of fresh_round]
  have "dispatch (both_held_idle 101) = None"
    and "play_tick (Some 100) (both_held_idle 101) fresh_round =
     Inr (Next (Some 100)
       (emit [SetButtonLed ''charge'' False, SetButtonLed ''discharge'' False] fresh_round))"
    by (simp_all add: s)
  ultimately show ?thesis using h(2) by (simp add: after_tick_def)
qed

section \<open>The two Game classes\<close>

text \<open>The methods of \<open>moonshot.py\<close> equal those of \<open>gamepi.py\<close>, helper by helper.\<close>


lemma ms_helpers:
  "ms_randomise_leds = randomise_leds" "ms_spin_windmill_briefly = spin_windmill_briefly"
  "ms_get_active_sensor = get_active_sensor" "ms_action_deltas = action_deltas"
  "ms_idle_entry = idle_entry"
  by (intro ext, simp add: ms_randomise_leds_def randomise_leds_def
        ms_spin_windmill_briefly_def spin_windmill_briefly_def ms_get_active_sensor_def
        get_active_sensor_def ms_action_deltas_def action_deltas_def ms_idle_entry_def
        idle_entry_def)+

lemma ms_init_game_eq: "ms_init_game = init_game"
  by (simp add: ms_init_game_def init_game_def)

lemma ms_handle_action_eq: "ms_handle_action = handle_action"
  apply (intro ext)
  unfolding ms_handle_action_def handle_action_def ms_helpers
  by (rule refl)

lemma ms_start_new_round_eq: "ms_start_new_round = start_new_round"
  apply (intro ext)
  unfolding ms_start_new_round_def start_new_round_def ms_helpers
  by (rule refl)

lemma ms_full_reset_eq: "ms_full_reset = full_reset"
  apply (intro ext)
  unfolding ms_full_reset_def full_reset_def ms_helpers
  by (rule refl)

lemma ms_dispatch_eq: "ms_dispatch = dispatch"
  apply (intro ext)
  unfolding ms_dispatch_def dispatch_def ms_helpers
  by (rule refl)

lemma ms_play_tick_eq: "ms_play_tick = play_tick"
  apply (intro ext)
  unfolding ms_play_tick_def play_tick_def ms_helpers ms_dispatch_eq ms_full_reset_eq
    ms_handle_action_eq
  by (rule refl)

lemma ms_play_round_eq: "ms_play_round bps ts g = play_round bps ts g"
  by (induction ts arbitrary: bps g)
     (simp_all add: ms_play_tick_eq ms_helpers split: sum.splits tick_result.splits)

lemma ms_idle_loop_eq: "ms_idle_loop = idle_loop"
  by (intro ext) (simp add: ms_idle_loop_def idle_loop_def ms_play_round_eq ms_start_new_round_eq)

lemma ms_session_eq: "ms_session rs g = session rs g"
  by (induction rs arbitrary: g) (simp_all add: ms_idle_loop_eq split: sum.splits prod.splits)

text \<open>
  Claim C10. On the same inputs (sensor and button reads, clock readings, random draws)
  \<open>_handle_action\<close>, \<open>_play_round\<close>, \<open>_start_new_round\<close> and \<open>_full_reset\<close> of the two
  classes are the same functions of the state, and so are \<open>idle\<close>, a whole session of
  rounds and the initial state: score, SoC, action count, last sensor, time stamps, LED
  values, the calls made to the hardware helpers and the place where the thread stands
  all agree.
\<close>

theorem moonshot_same_transitions:
  "ms_handle_action = handle_action \<and> ms_play_round = play_round \<and>
   ms_start_new_round = start_new_round \<and> ms_full_reset = full_reset \<and>
   ms_idle = idle \<and> ms_session = session \<and> ms_init_game = init_game"
proof -
  have "ms_idle = idle"
    by (intro ext) (simp add: ms_idle_def idle_def ms_idle_loop_eq ms_helpers)
  moreover have "ms_play_round = play_round" by (intro ext) (rule ms_play_round_eq)
  moreover have "ms_session = session" by (intro ext) (rule ms_session_eq)
  ultimately show ?thesis
    by (simp add: ms_handle_action_eq ms_start_new_round_eq ms_full_reset_eq ms_init_game_eq)
qed

end
